theory Spec2Isabelle
  imports Complex_Main
begin

section \<open>Filename utilities (src/utils/filenameUtils.ts)\<close>

text \<open>
  JavaScript strings are modelled as \<^typ>\<open>string\<close>: a list of characters, one per
  code unit. \<open>sanitizeFilename\<close> treats every character outside its two small character
  classes alike, so the width of a code unit plays no role.
\<close>

text \<open>
  Numbers in file names. Every number the templates print is an integer far below
  \<open>10\<^sup>2\<^sup>1\<close>, for which \<open>toString\<close> gives the plain decimal digits.
\<close>

definition digitChar :: "nat \<Rightarrow> char" where
  "digitChar d = ''0123456789'' ! d"

lemma of_char_digitChar:
  assumes "d < 10"
  shows "(of_char (digitChar d) :: nat) = 48 + d"
proof -
  from assms have "d \<in> {0, 1, 2, 3, 4, 5, 6, 7, 8, 9}" by auto
  then show ?thesis by (auto simp: digitChar_def)
qed

fun natToString :: "nat \<Rightarrow> string" where
  "natToString n =
     (if n < 10 then [digitChar n] else natToString (n div 10) @ [digitChar (n mod 10)])"

declare natToString.simps [simp del]

definition intToString :: "int \<Rightarrow> string" where
  "intToString i = (if i < 0 then CHR ''-'' # natToString (nat (- i)) else natToString (nat i))"

text \<open>\<open>gcd\<close> of the source, on the non-negative integers it is called with.\<close>

fun gcdJs :: "nat \<Rightarrow> nat \<Rightarrow> nat" where
  "gcdJs a b = (if b = 0 then a else gcdJs b (a mod b))"

declare gcdJs.simps [simp del]

text \<open>\<open>String.prototype.lastIndexOf\<close> for one character: \<open>-1\<close> when it does not occur.\<close>

definition lastIndexOf :: "char \<Rightarrow> string \<Rightarrow> int" where
  "lastIndexOf c s =
     (if c \<in> set s then int (length s) - 1 - int (length (takeWhile (\<lambda>d. d \<noteq> c) (rev s)))
      else - 1)"

text \<open>
  \<open>str.replace(/literal/g, replacement)\<close> with a replacement string. JavaScript expands
  \<open>$$\<close>, \<open>$&\<close>, \<open>$`\<close> and \<open>$'\<close> inside the replacement (the patterns have no capture
  groups, so \<open>$1\<close> and the like stay as they are); \<open>getSubstitution\<close> does that for the
  match \<open>matched\<close> with the text \<open>preceding\<close> and \<open>following\<close> it.
\<close>

fun getSubstitution :: "string \<Rightarrow> string \<Rightarrow> string \<Rightarrow> string \<Rightarrow> string" where
  "getSubstitution matched preceding following [] = []"
| "getSubstitution matched preceding following [c] = [c]"
| "getSubstitution matched preceding following (c # d # rest) =
     (if c = CHR ''$'' \<and> d = CHR ''$'' then CHR ''$'' # getSubstitution matched preceding following rest
      else if c = CHR ''$'' \<and> d = CHR ''&'' then matched @ getSubstitution matched preceding following rest
      else if c = CHR ''$'' \<and> d = CHR 0x60 then preceding @ getSubstitution matched preceding following rest
      else if c = CHR ''$'' \<and> d = CHR 0x27 then following @ getSubstitution matched preceding following rest
      else c # getSubstitution matched preceding following (d # rest))"

text \<open>
  The scan of a global replace: \<open>preceding\<close> is the part of the input already passed. The
  pattern is a non-empty literal such as \<open>{name}\<close>.
\<close>

function replaceFrom :: "string \<Rightarrow> string \<Rightarrow> string \<Rightarrow> string \<Rightarrow> string" where
  "replaceFrom pat replacement preceding [] = []"
| "replaceFrom pat replacement preceding (c # cs) =
     (if pat \<noteq> [] \<and> take (length pat) (c # cs) = pat
      then getSubstitution pat preceding (drop (length pat) (c # cs)) replacement @
           replaceFrom pat replacement (preceding @ pat) (drop (length pat) (c # cs))
      else c # replaceFrom pat replacement (preceding @ [c]) cs)"
  by pat_completeness auto
termination
  by (relation "measure (\<lambda>(pat, replacement, preceding, s). length s)") auto

definition replaceAll :: "string \<Rightarrow> string \<Rightarrow> string \<Rightarrow> string" where
  "replaceAll pat replacement s = replaceFrom pat replacement [] s"

datatype ImageFormat = Jpeg | Png | Webp

definition formatName :: "ImageFormat \<Rightarrow> string" where
  "formatName f = (case f of Jpeg \<Rightarrow> ''jpeg'' | Png \<Rightarrow> ''png'' | Webp \<Rightarrow> ''webp'')"

record ImageMetadata =
  originalName :: string
  outputWidth :: nat
  outputHeight :: nat
  outputFormat :: ImageFormat
  metaPresetName :: "string option"
  timestamp :: int
  index :: nat

subsection \<open>sanitizeFilename\<close>

text \<open>The character class of the first replacement: \<^verbatim>\<open>/ \ ? % * : | " < >\<close>.\<close>

definition invalidChars :: "char list" where
  "invalidChars =
     [CHR ''/'', CHR 0x5C, CHR ''?'', CHR ''%'', CHR ''*'', CHR '':'', CHR ''|'', CHR 0x22,
      CHR ''<'', CHR ''>'']"

text \<open>\<^verbatim>\<open>filename.replace(/[/\\?%*:|"<>]/g, '-')\<close>: each invalid character becomes a hyphen.\<close>

definition replaceInvalid :: "string \<Rightarrow> string" where
  "replaceInvalid s = map (\<lambda>c. if c \<in> set invalidChars then CHR ''-'' else c) s"

text \<open>
  \<^verbatim>\<open>safeFilename.replace(/--+/g, '-')\<close>: every maximal run of two or more hyphens becomes
  one hyphen. Dropping a hyphen whenever another one follows it does exactly that.
\<close>

fun collapseHyphens :: "string \<Rightarrow> string" where
  "collapseHyphens [] = []"
| "collapseHyphens [c] = [c]"
| "collapseHyphens (a # b # cs) =
     (if a = CHR ''-'' \<and> b = CHR ''-'' then collapseHyphens (b # cs)
      else a # collapseHyphens (b # cs))"

text \<open>
  \<^verbatim>\<open>safeFilename.replace(/^[ -]+|[ -]+$/g, '')\<close>: the leading run and the trailing run of
  spaces and hyphens are removed (the anchors match at the ends of the input only, as the
  expression has no \<open>m\<close> flag).
\<close>

definition isTrimChar :: "char \<Rightarrow> bool" where
  "isTrimChar c = (c = CHR '' '' \<or> c = CHR ''-'')"

definition trimEnds :: "string \<Rightarrow> string" where
  "trimEnds s = rev (dropWhile isTrimChar (rev (dropWhile isTrimChar s)))"

definition sanitizeFilename :: "string \<Rightarrow> string" where
  "sanitizeFilename filename =
     (let safeFilename = replaceInvalid filename;
          safeFilename = collapseHyphens safeFilename;
          safeFilename = trimEnds safeFilename;
          safeFilename = (if length safeFilename > 200 then take 200 safeFilename else safeFilename);
          safeFilename = (if safeFilename = [] then ''untitled'' else safeFilename)
      in safeFilename)"

text \<open>
  \<open>parseFilenameTemplate\<close>. \<open>presetName || ''\<close> turns \<open>null\<close> into the empty string;
  \<open>index\<close> is 0-based and printed 1-based.
\<close>

definition parseFilenameTemplate :: "string \<Rightarrow> ImageMetadata \<Rightarrow> string" where
  "parseFilenameTemplate template metadata =
     (let dot = lastIndexOf CHR ''.'' (originalName metadata);
          nameWithoutExt =
            take (if dot > 0 then nat dot else length (originalName metadata)) (originalName metadata);
          g = gcdJs (outputWidth metadata) (outputHeight metadata);
          ratio =
            (if outputWidth metadata \<noteq> 0 \<and> outputHeight metadata \<noteq> 0
             then natToString (outputWidth metadata div g) @ ''x'' @
                  natToString (outputHeight metadata div g)
             else '''');
          filename = template;
          filename = replaceAll ''{name}'' nameWithoutExt filename;
          filename = replaceAll ''{ext}'' (formatName (outputFormat metadata)) filename;
          filename = replaceAll ''{index}'' (natToString (index metadata + 1)) filename;
          filename = replaceAll ''{width}'' (natToString (outputWidth metadata)) filename;
          filename = replaceAll ''{height}'' (natToString (outputHeight metadata)) filename;
          filename = replaceAll ''{ratio}'' ratio filename;
          filename =
            replaceAll ''{preset}''
              (case metaPresetName metadata of None \<Rightarrow> '''' | Some p \<Rightarrow> p) filename;
          filename = replaceAll ''{timestamp}'' (intToString (timestamp metadata)) filename
      in sanitizeFilename filename)"

subsection \<open>getUniqueFilename\<close>

text \<open>
  The candidate with suffix \<open>(counter)\<close> before the extension. The set of existing names
  is the list of the names added so far.
\<close>

definition numberedName :: "string \<Rightarrow> string \<Rightarrow> nat \<Rightarrow> string" where
  "numberedName nameWithoutExt ext counter =
     nameWithoutExt @ ''('' @ natToString counter @ '')'' @ ext"

text \<open>
  Decimal digits can be read back, so different counters give different candidates, only
  finitely many of them are taken, and the \<open>while\<close> loop of \<open>getUniqueFilename\<close> ends.
\<close>

definition digitsValue :: "string \<Rightarrow> nat" where
  "digitsValue s = foldl (\<lambda>acc c. 10 * acc + (of_char c - 48)) 0 s"

lemma digitsValue_natToString: "digitsValue (natToString n) = n"
proof (induction n rule: natToString.induct)
  case (1 n)
  show ?case
  proof (cases "n < 10")
    case True
    then show ?thesis
      by (subst natToString.simps) (simp add: digitsValue_def of_char_digitChar)
  next
    case False
    have "digitsValue (natToString n) =
        10 * digitsValue (natToString (n div 10)) + (of_char (digitChar (n mod 10)) - 48)"
      using False by (subst natToString.simps) (simp add: digitsValue_def)
    also have "of_char (digitChar (n mod 10)) - 48 = n mod 10"
      by (simp add: of_char_digitChar)
    finally show ?thesis using "1.IH" [OF False] by simp
  qed
qed

lemma natToString_inj: "natToString a = natToString b \<Longrightarrow> a = b"
  using digitsValue_natToString by metis

lemma numberedName_inj: "inj (numberedName nameWithoutExt ext)"
  by (rule injI) (simp add: numberedName_def natToString_inj)

lemma finite_taken:
  "finite {k. numberedName nameWithoutExt ext k \<in> set existingNames}"
proof -
  have "{k. numberedName nameWithoutExt ext k \<in> set existingNames} =
      numberedName nameWithoutExt ext -` set existingNames"
    by auto
  then show ?thesis
    using numberedName_inj by (simp add: finite_vimageI)
qed

function uniqueLoop :: "string \<Rightarrow> string \<Rightarrow> string list \<Rightarrow> string \<Rightarrow> nat \<Rightarrow> string" where
  "uniqueLoop nameWithoutExt ext existingNames uniqueName counter =
     (if uniqueName \<in> set existingNames
      then uniqueLoop nameWithoutExt ext existingNames
             (numberedName nameWithoutExt ext counter) (counter + 1)
      else uniqueName)"
  by pat_completeness auto
termination
proof (relation "measure (\<lambda>(nameWithoutExt, ext, existingNames, uniqueName, counter).
    card {k. counter \<le> k \<and> numberedName nameWithoutExt ext k \<in> set existingNames} +
    (if uniqueName \<in> set existingNames then 1 else 0))")
  show "wf (measure (\<lambda>(nameWithoutExt, ext, existingNames, uniqueName, counter).
    card {k. counter \<le> k \<and> numberedName nameWithoutExt ext k \<in> set existingNames} +
    (if uniqueName \<in> set existingNames then 1 else 0)))"
    by simp
next
  fix nameWithoutExt ext :: string and existingNames :: "string list"
    and uniqueName :: string and counter :: nat
  assume taken: "uniqueName \<in> set existingNames"
  let ?S = "\<lambda>c. {k. c \<le> k \<and> numberedName nameWithoutExt ext k \<in> set existingNames}"
  have fin: "finite (?S counter)"
    using finite_taken [of nameWithoutExt ext existingNames] by (rule rev_finite_subset) auto
  have "card (?S (counter + 1)) +
      (if numberedName nameWithoutExt ext counter \<in> set existingNames then 1 else 0) =
      card (?S counter)"
  proof (cases "numberedName nameWithoutExt ext counter \<in> set existingNames")
    case True
    then have "?S counter = insert counter (?S (counter + 1))" by (auto simp: le_Suc_eq)
    moreover have "counter \<notin> ?S (counter + 1)" by simp
    moreover have "finite (?S (counter + 1))" using fin by (rule rev_finite_subset) auto
    ultimately show ?thesis using True by simp
  next
    case False
    then have "?S counter = ?S (counter + 1)"
      by (auto simp: le_Suc_eq) (metis le_antisym not_less_eq_eq)
    then show ?thesis using False by simp
  qed
  with taken show "((nameWithoutExt, ext, existingNames,
       numberedName nameWithoutExt ext counter, counter + 1),
      (nameWithoutExt, ext, existingNames, uniqueName, counter))
     \<in> measure (\<lambda>(nameWithoutExt, ext, existingNames, uniqueName, counter).
    card {k. counter \<le> k \<and> numberedName nameWithoutExt ext k \<in> set existingNames} +
    (if uniqueName \<in> set existingNames then 1 else 0))"
    by simp
qed

declare uniqueLoop.simps [simp del]

definition getUniqueFilename :: "string \<Rightarrow> string list \<Rightarrow> string" where
  "getUniqueFilename preferredName existingNames =
     (let dot = lastIndexOf CHR ''.'' preferredName;
          cut = (if dot > 0 then nat dot else length preferredName);
          nameWithoutExt = take cut preferredName;
          ext = drop cut preferredName
      in uniqueLoop nameWithoutExt ext existingNames preferredName 1)"


section \<open>Built-in background removal (src/workers/imageProcessor.worker.ts)\<close>

text \<open>
  The pixel buffer of an \<open>ImageData\<close> is a \<open>Uint8ClampedArray\<close> of RGBA bytes, row by row;
  it is modelled as a list of naturals (every value the algorithm stores is again a byte, so
  clamping never acts). \<open>getImageData(0, 0, width, height)\<close> returns a buffer of exactly
  \<open>4 * width * height\<close> bytes and throws for a zero width or height, so the algorithm only
  ever runs on buffers that satisfy \<open>wellFormed\<close>; on these every read below is in range.
\<close>

definition wellFormed :: "nat \<Rightarrow> nat \<Rightarrow> nat list \<Rightarrow> bool" where
  "wellFormed width height data = (0 < width \<and> 0 < height \<and> length data = 4 * width * height)"

text \<open>
  \<open>colorDistance\<close>: the Euclidean distance of two RGB colours. The square root is the real
  one; the source compares its double against 20, and for an integer argument the two
  comparisons agree (the double square root is monotone and exact at 400).
\<close>

definition colorDistance :: "int \<Rightarrow> int \<Rightarrow> int \<Rightarrow> int \<Rightarrow> int \<Rightarrow> int \<Rightarrow> real" where
  "colorDistance r1 g1 b1 r2 g2 b2 =
     sqrt (real_of_int ((r1 - r2)\<^sup>2 + (g1 - g2)\<^sup>2 + (b1 - b2)\<^sup>2))"

definition tolerance :: real where
  "tolerance = 20"

subsection \<open>getEdgeColor\<close>

text \<open>The byte offsets of the border pixels, in the order the source lists them.\<close>

definition samplePoints :: "nat \<Rightarrow> nat \<Rightarrow> nat list" where
  "samplePoints width height =
     map (\<lambda>i. i * 4) [0..<width] @
     map (\<lambda>i. (height - 1) * width * 4 + i * 4) [0..<width] @
     map (\<lambda>i. i * width * 4) [0..<height] @
     map (\<lambda>i. i * width * 4 + (width - 1) * 4) [0..<height]"

text \<open>
  The loop state of \<open>getEdgeColor\<close>: the counts per colour (the source keys them by the
  string \<open>r,g,b\<close>, which names the triple uniquely), the highest count and the colour that
  reached it first.
\<close>

record EdgeScan =
  colorCounts :: "(nat \<times> nat \<times> nat) \<rightharpoonup> nat"
  maxCount :: nat
  dominantColor :: "nat \<times> nat \<times> nat"

definition countSample :: "nat list \<Rightarrow> nat \<Rightarrow> EdgeScan \<Rightarrow> EdgeScan" where
  "countSample data i st =
     (let r = data ! i; g = data ! (i + 1); b = data ! (i + 2);
          key = (r, g, b);
          n = (case colorCounts st key of None \<Rightarrow> 0 | Some c \<Rightarrow> c) + 1;
          st = st\<lparr>colorCounts := (colorCounts st)(key \<mapsto> n)\<rparr>
      in if n > maxCount st then st\<lparr>maxCount := n, dominantColor := (r, g, b)\<rparr> else st)"

definition getEdgeColor :: "nat \<Rightarrow> nat \<Rightarrow> nat list \<Rightarrow> nat \<times> nat \<times> nat" where
  "getEdgeColor width height data =
     dominantColor
       (fold (countSample data) (samplePoints width height)
          \<lparr>colorCounts = Map.empty, maxCount = 0, dominantColor = (255, 255, 255)\<rparr>)"

subsection \<open>removeImageBackground\<close>

text \<open>
  The mask is a \<open>Uint8Array\<close> of \<open>width * height\<close> entries: 0 foreground, 1 background,
  2 feathered edge. Pixel coordinates are JavaScript numbers that can leave the image
  (\<open>x - 1\<close> at the left border), so they are integers here.
\<close>

type_synonym point = "int \<times> int"

definition inBounds :: "nat \<Rightarrow> nat \<Rightarrow> point \<Rightarrow> bool" where
  "inBounds width height p =
     (case p of (nx, ny) \<Rightarrow> nx \<ge> 0 \<and> nx < int width \<and> ny \<ge> 0 \<and> ny < int height)"

definition pixelIndex :: "nat \<Rightarrow> point \<Rightarrow> nat" where
  "pixelIndex width p = (case p of (x, y) \<Rightarrow> nat (y * int width + x))"

text \<open>The two loops that put every border pixel on the queue.\<close>

definition edgeQueue :: "nat \<Rightarrow> nat \<Rightarrow> point list" where
  "edgeQueue width height =
     concat (map (\<lambda>x. [(int x, 0), (int x, int height - 1)]) [0..<width]) @
     concat (map (\<lambda>y. [(0, int y), (int width - 1, int y)]) [1..<height - 1])"

text \<open>
  \<open>queue.forEach(([x, y]) => backgroundMask[y * width + x] = 1)\<close>. A write outside a typed
  array is ignored.
\<close>

definition markBackground :: "nat \<Rightarrow> point \<Rightarrow> nat list \<Rightarrow> nat list" where
  "markBackground width p bmask =
     (case p of (x, y) \<Rightarrow>
        if y * int width + x \<ge> 0 \<and> y * int width + x < int (length bmask)
        then bmask[nat (y * int width + x) := 1] else bmask)"

text \<open>The order of the neighbours in the flood fill: north, south, west, east.\<close>

definition fillNeighbors :: "point \<Rightarrow> point list" where
  "fillNeighbors p = (case p of (x, y) \<Rightarrow> [(x, y - 1), (x, y + 1), (x - 1, y), (x + 1, y)])"

text \<open>
  The body of the inner loop for one neighbour. Reading a typed array outside its range
  gives \<open>undefined\<close>, which is not \<open>=== 0\<close>; the bound check says so.
\<close>

definition visit ::
  "nat \<Rightarrow> nat \<Rightarrow> nat list \<Rightarrow> nat \<times> nat \<times> nat \<Rightarrow> point \<Rightarrow> nat list \<times> point list
     \<Rightarrow> nat list \<times> point list" where
  "visit width height data bg p st =
     (case (p, bg, st) of ((nx, ny), (bgR, bgG, bgB), (backgroundMask, queue)) \<Rightarrow>
        if nx \<ge> 0 \<and> nx < int width \<and> ny \<ge> 0 \<and> ny < int height then
          (let index = nat (ny * int width + nx) in
             if index < length backgroundMask \<and> backgroundMask ! index = 0 then
               (let dataIndex = index * 4;
                    r = data ! dataIndex;
                    g = data ! (dataIndex + 1);
                    b = data ! (dataIndex + 2)
                in if colorDistance (int r) (int g) (int b) (int bgR) (int bgG) (int bgB) < tolerance
                   then (backgroundMask[index := 1], queue @ [(nx, ny)])
                   else (backgroundMask, queue))
             else (backgroundMask, queue))
        else (backgroundMask, queue))"

definition expand ::
  "nat \<Rightarrow> nat \<Rightarrow> nat list \<Rightarrow> nat \<times> nat \<times> nat \<Rightarrow> point \<Rightarrow> nat list \<times> point list
     \<Rightarrow> nat list \<times> point list" where
  "expand width height data bg p st = fold (visit width height data bg) (fillNeighbors p) st"

text \<open>The number of mask entries that are still 0: what the flood fill can still mark.\<close>

definition unvisited :: "nat list \<Rightarrow> nat" where
  "unvisited bmask = length (filter (\<lambda>v. v = 0) bmask)"

lemma unvisited_update:
  assumes "i < length bmask" and "bmask ! i = 0"
  shows "Suc (unvisited (bmask[i := 1])) = unvisited bmask"
proof -
  have a: "bmask = take i bmask @ bmask ! i # drop (Suc i) bmask"
    using assms(1) by (simp add: id_take_nth_drop)
  have b: "bmask[i := 1] = take i bmask @ 1 # drop (Suc i) bmask"
    using assms(1) by (simp add: upd_conv_take_nth_drop)
  have "unvisited bmask = unvisited (take i bmask) + 1 + unvisited (drop (Suc i) bmask)"
    unfolding unvisited_def by (subst a) (simp add: assms(2))
  moreover have "unvisited (bmask[i := 1]) = unvisited (take i bmask) + unvisited (drop (Suc i) bmask)"
    unfolding unvisited_def by (subst b) simp
  ultimately show ?thesis by simp
qed

lemma visit_potential:
  "visit width height data bg p (bmask, queue) = (bmask', queue') \<Longrightarrow>
     unvisited bmask' + length queue' = unvisited bmask + length queue"
  using unvisited_update
  by (fastforce simp: visit_def Let_def split: prod.splits if_splits)

lemma fold_visit_potential:
  "fold (visit width height data bg) ps (bmask, queue) = (bmask', queue') \<Longrightarrow>
     unvisited bmask' + length queue' = unvisited bmask + length queue"
proof (induction ps arbitrary: bmask queue)
  case Nil
  then show ?case by simp
next
  case (Cons p ps)
  obtain m1 q1 where v: "visit width height data bg p (bmask, queue) = (m1, q1)"
    by (cases "visit width height data bg p (bmask, queue)")
  with Cons.prems have "fold (visit width height data bg) ps (m1, q1) = (bmask', queue')"
    by simp
  from Cons.IH [OF this] visit_potential [OF v] show ?case by simp
qed

lemma expand_potential:
  "expand width height data bg p (bmask, queue) = (bmask', queue') \<Longrightarrow>
     unvisited bmask' + length queue' = unvisited bmask + length queue"
  unfolding expand_def by (rule fold_visit_potential)

text \<open>
  The \<open>while (head < queue.length)\<close> loop. It ends because every pixel enters the queue at
  most once: a push turns a 0 of the mask into a 1.
\<close>

function floodFill ::
  "nat \<Rightarrow> nat \<Rightarrow> nat list \<Rightarrow> nat \<times> nat \<times> nat \<Rightarrow> nat list \<times> point list \<Rightarrow> nat \<Rightarrow> nat list" where
  "floodFill width height data bg st head =
     (if head < length (snd st)
      then floodFill width height data bg (expand width height data bg (snd st ! head) st) (Suc head)
      else fst st)"
  by pat_completeness auto
termination
proof (relation "measure (\<lambda>(width, height, data, bg, st, head).
                   unvisited (fst st) + length (snd st) - head)")
  show "wf (measure (\<lambda>(width, height, data, bg, st, head).
                   unvisited (fst st) + length (snd st) - head))"
    by simp
next
  fix width height :: nat and data :: "nat list" and bg :: "nat \<times> nat \<times> nat"
    and st :: "nat list \<times> point list" and head :: nat
  assume h: "head < length (snd st)"
  obtain m' q' where e: "expand width height data bg (snd st ! head) st = (m', q')"
    by (cases "expand width height data bg (snd st ! head) st")
  have "unvisited m' + length q' = unvisited (fst st) + length (snd st)"
    using expand_potential [of width height data bg "snd st ! head" "fst st" "snd st" m' q'] e
    by simp
  with h e show "((width, height, data, bg, expand width height data bg (snd st ! head) st, Suc head),
           (width, height, data, bg, st, head))
          \<in> measure (\<lambda>(width, height, data, bg, st, head).
                   unvisited (fst st) + length (snd st) - head)"
    by simp
qed

declare floodFill.simps [simp del]

text \<open>
  Feathering: a foreground pixel with a background neighbour (west, east, north, south)
  becomes 2. The source writes into the mask it is scanning; so does the fold.
\<close>

definition featherNeighbors :: "point \<Rightarrow> point list" where
  "featherNeighbors p = (case p of (x, y) \<Rightarrow> [(x - 1, y), (x + 1, y), (x, y - 1), (x, y + 1)])"

definition featherAt :: "nat \<Rightarrow> nat \<Rightarrow> nat \<Rightarrow> nat list \<Rightarrow> nat list" where
  "featherAt width height i backgroundMask =
     (if backgroundMask ! i = 0 then
        (let x = int (i mod width); y = int (i div width)
         in if list_ex (\<lambda>p. inBounds width height p \<and> backgroundMask ! pixelIndex width p = 1)
                 (featherNeighbors (x, y))
            then backgroundMask[i := 2] else backgroundMask)
      else backgroundMask)"

text \<open>Applying the mask: only the alpha byte of a pixel is written.\<close>

definition applyAt :: "nat list \<Rightarrow> nat \<Rightarrow> nat list \<Rightarrow> nat list" where
  "applyAt backgroundMask i data =
     (let maskValue = backgroundMask ! i
      in if maskValue = 1 then data[i * 4 + 3 := 0]
         else if maskValue = 2 then data[i * 4 + 3 := data ! (i * 4 + 3) div 2]
         else data)"

definition backgroundMaskOf :: "nat \<Rightarrow> nat \<Rightarrow> nat list \<Rightarrow> nat list" where
  "backgroundMaskOf width height data =
     (let bg = getEdgeColor width height data;
          backgroundMask = replicate (width * height) 0;
          queue = edgeQueue width height;
          backgroundMask = fold (markBackground width) queue backgroundMask;
          backgroundMask = floodFill width height data bg (backgroundMask, queue) 0
      in fold (featherAt width height) [0..<length backgroundMask] backgroundMask)"

text \<open>
  \<open>removeImageBackground\<close> on the bytes \<open>getImageData\<close> returned; the result is what
  \<open>putImageData\<close> writes back.
\<close>

definition removeImageBackground :: "nat \<Rightarrow> nat \<Rightarrow> nat list \<Rightarrow> nat list" where
  "removeImageBackground width height data =
     (let backgroundMask = backgroundMaskOf width height data
      in fold (applyAt backgroundMask) [0..<length backgroundMask] data)"

section \<open>JavaScript numbers\<close>

text \<open>
  The geometry divides by image and canvas dimensions, and a division by zero does not
  fail in JavaScript: it gives an infinity or NaN, which then flows through the rest of the
  arithmetic. \<open>jsnum\<close> models a number as an exact rational or one of these three values,
  with the IEEE rules for them. Two things are left out: rounding (finite results are exact
  here) and the sign of zero (every divisor below is a dimension or a quotient of
  dimensions, so a zero divisor is always \<open>+0\<close>).
\<close>

datatype jsnum = Num rat | PosInf | NegInf | NaN

fun js_div :: "jsnum \<Rightarrow> jsnum \<Rightarrow> jsnum" where
  "js_div NaN y = NaN"
| "js_div x NaN = NaN"
| "js_div (Num a) (Num b) =
     (if b \<noteq> 0 then Num (a / b) else if a = 0 then NaN else if a > 0 then PosInf else NegInf)"
| "js_div (Num a) y = Num 0"
| "js_div PosInf (Num b) = (if b \<ge> 0 then PosInf else NegInf)"
| "js_div NegInf (Num b) = (if b \<ge> 0 then NegInf else PosInf)"
| "js_div x y = NaN"

fun js_mul :: "jsnum \<Rightarrow> jsnum \<Rightarrow> jsnum" where
  "js_mul NaN y = NaN"
| "js_mul x NaN = NaN"
| "js_mul (Num a) (Num b) = Num (a * b)"
| "js_mul (Num a) PosInf = (if a = 0 then NaN else if a > 0 then PosInf else NegInf)"
| "js_mul (Num a) NegInf = (if a = 0 then NaN else if a > 0 then NegInf else PosInf)"
| "js_mul PosInf (Num b) = (if b = 0 then NaN else if b > 0 then PosInf else NegInf)"
| "js_mul NegInf (Num b) = (if b = 0 then NaN else if b > 0 then NegInf else PosInf)"
| "js_mul PosInf PosInf = PosInf"
| "js_mul NegInf NegInf = PosInf"
| "js_mul x y = NegInf"

fun js_sub :: "jsnum \<Rightarrow> jsnum \<Rightarrow> jsnum" where
  "js_sub NaN y = NaN"
| "js_sub x NaN = NaN"
| "js_sub (Num a) (Num b) = Num (a - b)"
| "js_sub (Num a) PosInf = NegInf"
| "js_sub (Num a) NegInf = PosInf"
| "js_sub PosInf PosInf = NaN"
| "js_sub NegInf NegInf = NaN"
| "js_sub PosInf y = PosInf"
| "js_sub NegInf y = NegInf"

fun js_less :: "jsnum \<Rightarrow> jsnum \<Rightarrow> bool" where
  "js_less NaN y = False"
| "js_less x NaN = False"
| "js_less (Num a) (Num b) = (a < b)"
| "js_less x NegInf = False"
| "js_less PosInf y = False"
| "js_less x y = True"

definition js_greater :: "jsnum \<Rightarrow> jsnum \<Rightarrow> bool" where
  "js_greater x y = js_less y x"

section \<open>Types shared by the two workers\<close>

datatype FitOption = Contain | Cover | Crop

text \<open>
  The arguments of the nine-argument \<open>drawImage\<close>: the source rectangle in the bitmap and
  the destination rectangle on the canvas.
\<close>

record DrawDimensions =
  sx :: jsnum
  sy :: jsnum
  sWidth :: jsnum
  sHeight :: jsnum
  dx :: jsnum
  dy :: jsnum
  dWidth :: jsnum
  dHeight :: jsnum

text \<open>The path commands of a 2D context that the workers issue.\<close>

datatype PathCmd =
    BeginPath
  | MoveTo rat rat
  | LineTo rat rat
  | QuadraticCurveTo rat rat rat rat
  | ArcTo rat rat rat rat rat
  | ClosePath

section \<open>Geometry and corners of src/workers/image.worker.ts\<close>

text \<open>\<open>calculateDrawDimensions\<close>: the cases \<open>cover\<close> and \<open>crop\<close> share one branch.\<close>

definition calculateDrawDimensions ::
  "jsnum \<Rightarrow> jsnum \<Rightarrow> jsnum \<Rightarrow> jsnum \<Rightarrow> FitOption \<Rightarrow> DrawDimensions" where
  "calculateDrawDimensions imgWidth imgHeight canvasWidth canvasHeight fit =
     (let imgAspect = js_div imgWidth imgHeight;
          canvasAspect = js_div canvasWidth canvasHeight;
          d = \<lparr>sx = Num 0, sy = Num 0, sWidth = imgWidth, sHeight = imgHeight,
               dx = Num 0, dy = Num 0, dWidth = canvasWidth, dHeight = canvasHeight\<rparr>
      in case fit of
           Contain \<Rightarrow>
             (if js_greater imgAspect canvasAspect
              then (let dHeight' = js_div canvasWidth imgAspect
                    in d\<lparr>dHeight := dHeight',
                         dy := js_div (js_sub canvasHeight dHeight') (Num 2)\<rparr>)
              else (let dWidth' = js_mul canvasHeight imgAspect
                    in d\<lparr>dWidth := dWidth',
                         dx := js_div (js_sub canvasWidth dWidth') (Num 2)\<rparr>))
         | _ \<Rightarrow>
             (if js_greater imgAspect canvasAspect
              then (let sWidth' = js_mul imgHeight canvasAspect
                    in d\<lparr>sWidth := sWidth',
                         sx := js_div (js_sub imgWidth sWidth') (Num 2)\<rparr>)
              else (let sHeight' = js_div imgWidth canvasAspect
                    in d\<lparr>sHeight := sHeight',
                         sy := js_div (js_sub imgHeight sHeight') (Num 2)\<rparr>)))"

text \<open>
  \<open>drawRoundedRectPath\<close>: the radius is first clamped with
  \<open>Math.min(radius, width / 2, height / 2)\<close>; the path is built from the clamped radius.
\<close>

definition drawRoundedRectPath :: "rat \<Rightarrow> rat \<Rightarrow> rat \<Rightarrow> PathCmd list" where
  "drawRoundedRectPath width height radius0 =
     (let radius = min radius0 (min (width / 2) (height / 2))
      in [BeginPath,
          MoveTo radius 0,
          LineTo (width - radius) 0,
          QuadraticCurveTo width 0 width radius,
          LineTo width (height - radius),
          QuadraticCurveTo width height (width - radius) height,
          LineTo radius height,
          QuadraticCurveTo 0 height 0 (height - radius),
          LineTo 0 radius,
          QuadraticCurveTo 0 0 radius 0,
          ClosePath])"

section \<open>Geometry and corners of src/workers/imageProcessor.worker.ts\<close>

text \<open>
  The \<open>switch (resize.fit)\<close> of this worker's \<open>onmessage\<close>, from the bitmap and canvas
  sizes to the rectangles it hands to \<open>drawImage\<close>. The case \<open>contain\<close> calls the
  five-argument \<open>drawImage\<close>, whose source rectangle is the whole bitmap: the initial values
  of \<open>sourceX\<close>, \<open>sourceY\<close>, \<open>sourceWidth\<close> and \<open>sourceHeight\<close>. The cases \<open>cover\<close> and
  \<open>crop\<close> draw onto \<open>(0, 0, canvas.width, canvas.height)\<close>: the initial values of the
  destination variables. \<open>cover\<close> tests \<open>imgAspectRatio < canvasAspectRatio\<close> where \<open>crop\<close>
  tests \<open>imgAspectRatio > canvasAspectRatio\<close>.
\<close>

definition resizeAndFit :: "nat \<Rightarrow> nat \<Rightarrow> nat \<Rightarrow> nat \<Rightarrow> FitOption \<Rightarrow> DrawDimensions" where
  "resizeAndFit bitmapW bitmapH canvasW canvasH fit =
     (let bw = Num (of_nat bitmapW); bh = Num (of_nat bitmapH);
          cw = Num (of_nat canvasW); ch = Num (of_nat canvasH);
          imgAspectRatio = js_div bw bh;
          canvasAspectRatio = js_div cw ch;
          d = \<lparr>sx = Num 0, sy = Num 0, sWidth = bw, sHeight = bh,
               dx = Num 0, dy = Num 0, dWidth = cw, dHeight = ch\<rparr>
      in case fit of
           Contain \<Rightarrow>
             (if js_greater imgAspectRatio canvasAspectRatio
              then (let destHeight = js_div cw imgAspectRatio
                    in d\<lparr>dHeight := destHeight,
                         dy := js_div (js_sub ch destHeight) (Num 2)\<rparr>)
              else (let destWidth = js_mul ch imgAspectRatio
                    in d\<lparr>dWidth := destWidth,
                         dx := js_div (js_sub cw destWidth) (Num 2)\<rparr>))
         | Cover \<Rightarrow>
             (if js_less imgAspectRatio canvasAspectRatio
              then (let sourceWidth = js_mul bh canvasAspectRatio
                    in d\<lparr>sWidth := sourceWidth,
                         sx := js_div (js_sub bw sourceWidth) (Num 2)\<rparr>)
              else (let sourceHeight = js_div bw canvasAspectRatio
                    in d\<lparr>sHeight := sourceHeight,
                         sy := js_div (js_sub bh sourceHeight) (Num 2)\<rparr>))
         | Crop \<Rightarrow>
             (if js_greater imgAspectRatio canvasAspectRatio
              then (let sourceWidth = js_mul bh canvasAspectRatio
                    in d\<lparr>sWidth := sourceWidth,
                         sx := js_div (js_sub bw sourceWidth) (Num 2)\<rparr>)
              else (let sourceHeight = js_div bw canvasAspectRatio
                    in d\<lparr>sHeight := sourceHeight,
                         sy := js_div (js_sub bh sourceHeight) (Num 2)\<rparr>)))"

text \<open>
  The path of step 3 (rounded corners) of this worker's \<open>onmessage\<close>, filled with the
  composite operation \<open>destination-in\<close>. \<open>borderRadius\<close> is used as it arrives.
\<close>

definition roundedCornerPath :: "rat \<Rightarrow> rat \<Rightarrow> rat \<Rightarrow> PathCmd list" where
  "roundedCornerPath width height borderRadius =
     [BeginPath,
      MoveTo 0 borderRadius,
      ArcTo 0 0 borderRadius 0 borderRadius,
      LineTo (width - borderRadius) 0,
      ArcTo width 0 width borderRadius borderRadius,
      LineTo width (height - borderRadius),
      ArcTo width height (width - borderRadius) height borderRadius,
      LineTo borderRadius height,
      ArcTo 0 height 0 (height - borderRadius) borderRadius,
      ClosePath]"

section \<open>What the workers receive, call and post\<close>

text \<open>
  A \<open>File\<close> is its name and its bytes; an entry of \<open>images\<close> is a file with the id the
  page gave it. The type of \<open>images\<close> has no \<open>null\<close> entries, so the guard
  \<open>if (!image) continue\<close> of imageProcessor.worker never fires and has no branch here.
\<close>

record File =
  fileName :: string
  fileBytes :: "nat list"

record ImageEntry =
  imageFile :: File
  imageId :: string

record ImageBitmap =
  bitmapWidth :: nat
  bitmapHeight :: nat
  bitmapData :: "nat list"

text \<open>A \<open>Blob\<close> is its bytes; \<open>blob.size\<close> is their number.\<close>

type_synonym Blob = "nat list"

record ResizeOptions =
  resizeWidth :: nat
  resizeHeight :: nat
  resizeFit :: FitOption

text \<open>
  An \<open>OffscreenCanvas\<close> is its size and the list of drawing calls made on its context.
  \<open>Fill\<close> carries the composite operation and fill style in force.
\<close>

datatype CanvasOp =
    FillRect string rat rat rat rat
  | ClearRect rat rat rat rat
  | Clip "PathCmd list"
  | DrawImage ImageBitmap DrawDimensions
  | PutImageData "nat list"
  | Fill string string "PathCmd list"

record Canvas =
  canvasWidth :: nat
  canvasHeight :: nat
  canvasOps :: "CanvasOp list"

text \<open>
  The platform: everything the workers call that is not code of the repository. Each
  entry is a function of what the call is given.
  \<^item> \<open>createImageBitmap\<close>: the decoded bitmap, or \<open>None\<close> when the promise rejects.
  \<^item> \<open>getContext2d\<close>: whether \<open>getContext('2d')\<close> of a canvas of that size returns a
    context (\<open>False\<close>: it returns \<open>null\<close>).
  \<^item> \<open>convertToBlob\<close>: \<open>None\<close> when the promise rejects, \<open>Some None\<close> for a null blob.
  \<^item> \<open>getImageData\<close>: the RGBA bytes of the canvas, or \<open>None\<close> when the call throws (as
    it does for a canvas without pixels).
  \<^item> \<open>imglyRemoveBackground\<close>: the imported \<open>removeBackground\<close> of image.worker; it
    reports progress through the callback, then resolves with the bytes of a new image or
    rejects.
  \<^item> \<open>dateNow\<close>: what the \<open>k\<close>-th call of \<open>Date.now()\<close> in a run returns.
  \<^item> \<open>toFixed2\<close>: the text of \<open>(width / height).toFixed(2)\<close>.
\<close>

record Platform =
  createImageBitmap :: "nat list \<Rightarrow> ImageBitmap option"
  getContext2d :: "nat \<Rightarrow> nat \<Rightarrow> bool"
  convertToBlob :: "Canvas \<Rightarrow> ImageFormat \<Rightarrow> rat option \<Rightarrow> Blob option option"
  getImageData :: "Canvas \<Rightarrow> nat list option"
  imglyRemoveBackground :: "File \<Rightarrow> (string \<times> nat \<times> nat) list \<times> nat list option"
  dateNow :: "nat \<Rightarrow> int"
  toFixed2 :: "nat \<Rightarrow> nat \<Rightarrow> string"

record ProcessedImageResult =
  blob :: Blob
  filename :: string
  resultWidth :: nat
  resultHeight :: nat
  resultSize :: nat
  originalId :: string

datatype WorkerResponse =
    Progress nat nat string
  | Done "ProcessedImageResult list"
  | ModelLoadProgress string nat nat

text \<open>The calls that decode and encode, logged in the order they are made.\<close>

datatype PlatformCall =
    CallCreateImageBitmap "nat list"
  | CallConvertToBlob Canvas ImageFormat "rat option"

text \<open>
  The state of one run of \<open>onmessage\<close>: the messages posted so far, the log of decode
  and encode calls, the file names written by \<open>console.error\<close>, the results collected
  (\<open>finalResults\<close> in image.worker, \<open>results\<close> in imageProcessor.worker), the counter
  \<open>processedCount\<close> of image.worker, the number of \<open>Date.now()\<close> calls made, and the set
  \<open>generatedFilenames\<close> of imageProcessor.worker as the list of names added.
\<close>

record WorkerState =
  posted :: "WorkerResponse list"
  calls :: "PlatformCall list"
  logged :: "string list"
  results :: "ProcessedImageResult list"
  processedCount :: nat
  clockReads :: nat
  generatedFilenames :: "string list"

definition initialState :: WorkerState where
  "initialState =
     \<lparr>posted = [], calls = [], logged = [], results = [], processedCount = 0,
      clockReads = 0, generatedFilenames = []\<rparr>"

text \<open>The \<open>catch\<close> block of either worker: the image is logged and skipped.\<close>

definition catchError :: "ImageEntry \<Rightarrow> WorkerState \<Rightarrow> WorkerState" where
  "catchError img st = st\<lparr>logged := logged st @ [fileName (imageFile img)]\<rparr>"

text \<open>\<open>quality ? quality / 100 : undefined\<close>: a missing quality and the quality 0 give none.\<close>

definition qualityArg :: "rat option \<Rightarrow> rat option" where
  "qualityArg q = (case q of None \<Rightarrow> None | Some v \<Rightarrow> if v \<noteq> 0 then Some (v / 100) else None)"

section \<open>The worker src/workers/image.worker.ts\<close>

record ProcessOptions =
  resize :: "ResizeOptions option"
  borderRadius :: "rat option"
  format :: ImageFormat
  quality :: "rat option"
  removeBackground :: bool
  filenameTemplate :: "string option"
  presetName :: "string option"

text \<open>\<open>originalName.split('.')\<close> and \<open>parts.join('.')\<close>.\<close>

fun splitOn :: "char \<Rightarrow> string \<Rightarrow> string list" where
  "splitOn c [] = [[]]"
| "splitOn c (x # xs) =
     (if x = c then [] # splitOn c xs
      else (case splitOn c xs of [] \<Rightarrow> [[x]] | y # ys \<Rightarrow> (x # y) # ys))"

fun joinWith :: "char \<Rightarrow> string list \<Rightarrow> string" where
  "joinWith c [] = []"
| "joinWith c [x] = x"
| "joinWith c (x # y # ys) = x @ c # joinWith c (y # ys)"

definition endsWith :: "string \<Rightarrow> string \<Rightarrow> bool" where
  "endsWith s suffix = (length suffix \<le> length s \<and> drop (length s - length suffix) s = suffix)"

text \<open>
  \<open>generateFileName\<close>. Its \<open>Date.now()\<close> is the call number \<open>reads\<close> of the run; the
  default template applies when none is given.
\<close>

definition generateFileName ::
  "Platform \<Rightarrow> nat \<Rightarrow> string \<Rightarrow> string \<Rightarrow> nat \<Rightarrow> string option \<Rightarrow> ImageFormat \<Rightarrow> nat \<Rightarrow> nat
     \<Rightarrow> string option \<Rightarrow> string" where
  "generateFileName P reads origName origId idx templateOpt fmt width height preset =
     (let template = (case templateOpt of None \<Rightarrow> ''{name}_{index}'' | Some t \<Rightarrow> t);
          nameWithoutExt = joinWith CHR ''.'' (butlast (splitOn CHR ''.'' origName));
          ratio = toFixed2 P width height;
          timestamp = dateNow P reads;
          fileName = replaceAll ''{name}'' nameWithoutExt template;
          fileName = replaceAll ''{ext}'' (formatName fmt) fileName;
          fileName = replaceAll ''{index}'' (natToString idx) fileName;
          fileName = replaceAll ''{width}'' (natToString width) fileName;
          fileName = replaceAll ''{height}'' (natToString height) fileName;
          fileName = replaceAll ''{ratio}'' ratio fileName;
          fileName = replaceAll ''{preset}'' (case preset of None \<Rightarrow> '''' | Some p \<Rightarrow> p) fileName;
          fileName = replaceAll ''{timestamp}'' (intToString timestamp) fileName
      in if \<not> endsWith fileName (''.'' @ formatName fmt)
         then fileName @ ''.'' @ formatName fmt else fileName)"

text \<open>
  The body of the \<open>for\<close> loop, in the order of the source. Three stretches of it that
  call nothing that can fail are definitions of their own: the canvas size
  (\<open>options.resize?.width ?? imageBitmap.width\<close>), the effective format, and the drawing
  calls from the background fill to \<open>drawImage\<close>.
\<close>

definition canvasSize :: "ProcessOptions \<Rightarrow> ImageBitmap \<Rightarrow> nat \<times> nat" where
  "canvasSize options imageBitmap =
     (case resize options of
        None \<Rightarrow> (bitmapWidth imageBitmap, bitmapHeight imageBitmap)
      | Some r \<Rightarrow> (resizeWidth r, resizeHeight r))"

definition effectiveFormatOf :: "ProcessOptions \<Rightarrow> ImageFormat" where
  "effectiveFormatOf options =
     (if removeBackground options \<and> format options = Jpeg then Png else format options)"

definition drawCanvas :: "ProcessOptions \<Rightarrow> ImageBitmap \<Rightarrow> Canvas" where
  "drawCanvas options imageBitmap =
     (case canvasSize options imageBitmap of (cw, ch) \<Rightarrow>
        (let background =
               (if effectiveFormatOf options = Jpeg
                then FillRect ''#FFFFFF'' 0 0 (of_nat cw) (of_nat ch)
                else ClearRect 0 0 (of_nat cw) (of_nat ch));
             clip =
               (case borderRadius options of
                  None \<Rightarrow> []
                | Some r \<Rightarrow>
                    if r \<noteq> 0 \<and> r > 0
                    then [Clip (drawRoundedRectPath (of_nat cw) (of_nat ch) r)]
                    else []);
             d = calculateDrawDimensions
                   (Num (of_nat (bitmapWidth imageBitmap)))
                   (Num (of_nat (bitmapHeight imageBitmap)))
                   (Num (of_nat cw)) (Num (of_nat ch))
                   (case resize options of None \<Rightarrow> Cover | Some r \<Rightarrow> resizeFit r)
         in \<lparr>canvasWidth = cw, canvasHeight = ch,
             canvasOps = [background] @ clip @ [DrawImage imageBitmap d]\<rparr>))"

text \<open>
  The messages of the progress callback are posted while \<open>removeBackground\<close> runs, so
  they stay posted when it rejects.
\<close>

definition processImage ::
  "Platform \<Rightarrow> ProcessOptions \<Rightarrow> nat \<Rightarrow> ImageEntry \<Rightarrow> WorkerState \<Rightarrow> WorkerState" where
  "processImage P options totalCount img st0 =
     (let rb = (if removeBackground options then imglyRemoveBackground P (imageFile img)
                else ([], Some (fileBytes (imageFile img))));
          st1 = st0\<lparr>posted := posted st0 @
                   map (\<lambda>(key, current, total). ModelLoadProgress key current total) (fst rb)\<rparr>
      in case snd rb of
           None \<Rightarrow> catchError img st1
         | Some processedFile \<Rightarrow>
            (let st2 = st1\<lparr>calls := calls st1 @ [CallCreateImageBitmap processedFile]\<rparr>
             in case createImageBitmap P processedFile of
                  None \<Rightarrow> catchError img st2
                | Some imageBitmap \<Rightarrow>
                    if \<not> getContext2d P (fst (canvasSize options imageBitmap))
                                          (snd (canvasSize options imageBitmap))
                    then st2
                    else
                     (let effectiveFormat = effectiveFormatOf options;
                          canvas = drawCanvas options imageBitmap;
                          q = (if effectiveFormat = Png then None else qualityArg (quality options));
                          st3 = st2\<lparr>calls := calls st2 @
                                  [CallConvertToBlob canvas effectiveFormat q]\<rparr>
                      in case convertToBlob P canvas effectiveFormat q of
                           None \<Rightarrow> catchError img st3
                         | Some None \<Rightarrow> st3
                         | Some (Some b) \<Rightarrow>
                            st3\<lparr>processedCount := processedCount st3 + 1,
                                clockReads := clockReads st3 + 1,
                                results := results st3 @
                                  [\<lparr>blob = b,
                                    filename =
                                      generateFileName P (clockReads st3) (fileName (imageFile img))
                                        (imageId img) (processedCount st3 + 1)
                                        (filenameTemplate options) effectiveFormat
                                        (canvasWidth canvas) (canvasHeight canvas)
                                        (presetName options),
                                    resultWidth = canvasWidth canvas,
                                    resultHeight = canvasHeight canvas,
                                    resultSize = length b,
                                    originalId = imageId img\<rparr>],
                                posted := posted st3 @
                                  [Progress (processedCount st3 + 1) totalCount
                                     (fileName (imageFile img))]\<rparr>)))"

text \<open>\<open>onmessage\<close>: the loop over the images, then the message \<open>done\<close>.\<close>

definition onmessage :: "Platform \<Rightarrow> ImageEntry list \<Rightarrow> ProcessOptions \<Rightarrow> WorkerState" where
  "onmessage P images options =
     (let st = fold (processImage P options (length images)) images initialState
      in st\<lparr>posted := posted st @ [Done (results st)]\<rparr>)"

section \<open>The worker src/workers/imageProcessor.worker.ts\<close>

record RequestOptions =
  reqResize :: ResizeOptions
  reqBorderRadius :: rat
  reqFormat :: ImageFormat
  reqQuality :: "rat option"
  reqRemoveBackground :: bool
  reqFilenameTemplate :: string
  reqPresetName :: "string option"

text \<open>
  The body of the \<open>for\<close> loop, in the order of the source, with the canvas work of steps
  1 to 3 as definitions of their own. Step 1 draws the bitmap. Step 2 is \<open>getImageData\<close>,
  the flood fill and \<open>putImageData\<close>; it gives \<open>None\<close> when \<open>getImageData\<close> throws. Step 3
  fills the corner path when \<open>borderRadius > 0\<close>.
\<close>

definition drawFitted :: "RequestOptions \<Rightarrow> ImageBitmap \<Rightarrow> Canvas" where
  "drawFitted options bitmap =
     \<lparr>canvasWidth = resizeWidth (reqResize options),
      canvasHeight = resizeHeight (reqResize options),
      canvasOps =
        [DrawImage bitmap
           (resizeAndFit (bitmapWidth bitmap) (bitmapHeight bitmap)
              (resizeWidth (reqResize options)) (resizeHeight (reqResize options))
              (resizeFit (reqResize options)))]\<rparr>"

definition removeBackgroundStep :: "Platform \<Rightarrow> Canvas \<Rightarrow> Canvas option" where
  "removeBackgroundStep P canvas =
     (case getImageData P canvas of
        None \<Rightarrow> None
      | Some data \<Rightarrow>
          Some (canvas\<lparr>canvasOps := canvasOps canvas @
                  [PutImageData
                     (removeImageBackground (canvasWidth canvas) (canvasHeight canvas) data)]\<rparr>))"

definition roundCorners :: "RequestOptions \<Rightarrow> Canvas \<Rightarrow> Canvas" where
  "roundCorners options canvas =
     (if reqBorderRadius options > 0
      then canvas\<lparr>canvasOps := canvasOps canvas @
             [Fill ''destination-in'' ''black''
                (roundedCornerPath (of_nat (canvasWidth canvas)) (of_nat (canvasHeight canvas))
                   (reqBorderRadius options))]\<rparr>
      else canvas)"

definition outputFormatOf :: "RequestOptions \<Rightarrow> ImageFormat" where
  "outputFormatOf options =
     (if reqRemoveBackground options \<and> reqFormat options = Jpeg then Png else reqFormat options)"

text \<open>
  \<open>stamp\<close> is the value of \<open>Date.now()\<close> read once before the loop, \<open>i\<close> the position of
  the image.
\<close>

definition processImageAt ::
  "Platform \<Rightarrow> RequestOptions \<Rightarrow> nat \<Rightarrow> int \<Rightarrow> nat \<Rightarrow> ImageEntry \<Rightarrow> WorkerState \<Rightarrow> WorkerState" where
  "processImageAt P options totalCount stamp i img st0 =
     (let st1 = st0\<lparr>calls := calls st0 @ [CallCreateImageBitmap (fileBytes (imageFile img))]\<rparr>
      in case createImageBitmap P (fileBytes (imageFile img)) of
           None \<Rightarrow> catchError img st1
         | Some bitmap \<Rightarrow>
             if \<not> getContext2d P (resizeWidth (reqResize options)) (resizeHeight (reqResize options))
             then st1
             else
              (case (if reqRemoveBackground options
                     then removeBackgroundStep P (drawFitted options bitmap)
                     else Some (drawFitted options bitmap)) of
                 None \<Rightarrow> catchError img st1
               | Some canvas1 \<Rightarrow>
                  (let fmt = outputFormatOf options;
                       canvas = roundCorners options canvas1;
                       q = qualityArg (reqQuality options);
                       st2 = st1\<lparr>calls := calls st1 @ [CallConvertToBlob canvas fmt q]\<rparr>
                   in case convertToBlob P canvas fmt q of
                        None \<Rightarrow> catchError img st2
                      | Some None \<Rightarrow> st2
                      | Some (Some b) \<Rightarrow>
                         (let finalFilename =
                                getUniqueFilename
                                  (parseFilenameTemplate (reqFilenameTemplate options)
                                     \<lparr>originalName = fileName (imageFile img),
                                      outputWidth = canvasWidth canvas,
                                      outputHeight = canvasHeight canvas,
                                      outputFormat = fmt,
                                      metaPresetName = reqPresetName options,
                                      timestamp = stamp, index = i\<rparr>)
                                  (generatedFilenames st2)
                          in st2\<lparr>generatedFilenames := generatedFilenames st2 @ [finalFilename],
                                 results := results st2 @
                                   [\<lparr>blob = b, filename = finalFilename,
                                     resultWidth = canvasWidth canvas,
                                     resultHeight = canvasHeight canvas,
                                     resultSize = length b,
                                     originalId = imageId img\<rparr>],
                                 posted := posted st2 @
                                   [Progress (i + 1) totalCount (fileName (imageFile img))]\<rparr>))))"

text \<open>
  \<open>onmessage\<close>: \<open>Date.now()\<close> once, the loop over the positions \<open>0 .. totalCount - 1\<close>,
  then the message \<open>done\<close>.
\<close>

definition onmessageProcessor :: "Platform \<Rightarrow> ImageEntry list \<Rightarrow> RequestOptions \<Rightarrow> WorkerState" where
  "onmessageProcessor P images options =
     (let totalCount = length images;
          stamp = dateNow P 0;
          st = fold (\<lambda>i. processImageAt P options totalCount stamp i (images ! i))
                 [0..<totalCount] (initialState\<lparr>clockReads := 1\<rparr>)
      in st\<lparr>posted := posted st @ [Done (results st)]\<rparr>)"

section \<open>Properties of the geometry\<close>

text \<open>
  \<open>fillsCanvas\<close>: the destination rectangle is the whole canvas. \<open>withinSource\<close>: the
  source rectangle has finite edges, a non-negative origin and a positive size, and ends
  inside the image.
\<close>

definition withinSource :: "rat \<Rightarrow> rat \<Rightarrow> DrawDimensions \<Rightarrow> bool" where
  "withinSource imgW imgH d =
     (case (sx d, sy d, sWidth d, sHeight d) of
        (Num x, Num y, Num w, Num h) \<Rightarrow>
          0 \<le> x \<and> 0 \<le> y \<and> 0 < w \<and> 0 < h \<and> x + w \<le> imgW \<and> y + h \<le> imgH
      | _ \<Rightarrow> False)"

definition fillsCanvas :: "jsnum \<Rightarrow> jsnum \<Rightarrow> DrawDimensions \<Rightarrow> bool" where
  "fillsCanvas canvasW canvasH d =
     (dx d = Num 0 \<and> dy d = Num 0 \<and> dWidth d = canvasW \<and> dHeight d = canvasH)"

text \<open>
  The two branches that crop the source, in exact arithmetic: the branch for an image
  wider than the canvas and the branch for the rest.
\<close>

lemma crop_branch_bounds:
  fixes iw ih cw ch :: rat
  assumes "0 < iw" "0 < ih" "0 < cw" "0 < ch"
  shows "cw / ch < iw / ih \<Longrightarrow>
           0 < ih * (cw / ch) \<and> 0 \<le> (iw - ih * (cw / ch)) / 2 \<and>
           (iw - ih * (cw / ch)) / 2 + ih * (cw / ch) \<le> iw"
    and "\<not> cw / ch < iw / ih \<Longrightarrow>
           0 < iw / (cw / ch) \<and> 0 \<le> (ih - iw / (cw / ch)) / 2 \<and>
           (ih - iw / (cw / ch)) / 2 + iw / (cw / ch) \<le> ih"
proof -
  assume a: "cw / ch < iw / ih"
  have "ih * (cw / ch) < ih * (iw / ih)"
    using a assms(2) by (rule mult_strict_left_mono)
  then have lt: "ih * (cw / ch) < iw" using assms(2) by simp
  have pos: "0 < ih * (cw / ch)" using assms by simp
  from lt pos show "0 < ih * (cw / ch) \<and> 0 \<le> (iw - ih * (cw / ch)) / 2 \<and>
           (iw - ih * (cw / ch)) / 2 + ih * (cw / ch) \<le> iw"
    by (simp add: field_simps)
next
  assume a: "\<not> cw / ch < iw / ih"
  then have "iw / ih \<le> cw / ch" by simp
  then have "iw * ch \<le> cw * ih"
    using assms by (simp add: field_simps)
  then have "iw * ch / cw \<le> ih"
    using assms by (simp add: field_simps)
  then have le: "iw / (cw / ch) \<le> ih" by simp
  have pos: "0 < iw / (cw / ch)" using assms by simp
  from le pos show "0 < iw / (cw / ch) \<and> 0 \<le> (ih - iw / (cw / ch)) / 2 \<and>
           (ih - iw / (cw / ch)) / 2 + iw / (cw / ch) \<le> ih"
    by (simp add: field_simps)
qed

lemma withinSource_wide:
  fixes iw ih cw ch :: rat
  assumes "0 < iw" "0 < ih" "0 < cw" "0 < ch" and "cw / ch < iw / ih"
  shows "withinSource iw ih
     \<lparr>sx = Num ((iw - ih * (cw / ch)) / 2), sy = Num 0, sWidth = Num (ih * (cw / ch)),
      sHeight = Num ih, dx = a, dy = b, dWidth = c, dHeight = d\<rparr>"
  using crop_branch_bounds(1) [OF assms] assms(2) by (simp add: withinSource_def)

lemma withinSource_tall:
  fixes iw ih cw ch :: rat
  assumes "0 < iw" "0 < ih" "0 < cw" "0 < ch" and "\<not> cw / ch < iw / ih"
  shows "withinSource iw ih
     \<lparr>sx = Num 0, sy = Num ((ih - iw / (cw / ch)) / 2), sWidth = Num iw,
      sHeight = Num (iw / (cw / ch)), dx = a, dy = b, dWidth = c, dHeight = d\<rparr>"
  using crop_branch_bounds(2) [OF assms] assms(1) by (simp add: withinSource_def)

lemma calculateDrawDimensions_cover_eq_crop:
  "calculateDrawDimensions iw ih cw ch Cover = calculateDrawDimensions iw ih cw ch Crop"
  by (simp add: calculateDrawDimensions_def)

lemma calculateDrawDimensions_crop:
  assumes "0 < iw" "0 < ih" "0 < cw" "0 < ch"
  shows "fillsCanvas (Num cw) (Num ch) (calculateDrawDimensions (Num iw) (Num ih) (Num cw) (Num ch) Crop)"
    and "withinSource iw ih (calculateDrawDimensions (Num iw) (Num ih) (Num cw) (Num ch) Crop)"
proof -
  have nz: "ih \<noteq> 0" "ch \<noteq> 0" using assms by simp_all
  show "fillsCanvas (Num cw) (Num ch) (calculateDrawDimensions (Num iw) (Num ih) (Num cw) (Num ch) Crop)"
    by (simp add: fillsCanvas_def calculateDrawDimensions_def Let_def)
  show "withinSource iw ih (calculateDrawDimensions (Num iw) (Num ih) (Num cw) (Num ch) Crop)"
  proof (cases "cw / ch < iw / ih")
    case True
    have "calculateDrawDimensions (Num iw) (Num ih) (Num cw) (Num ch) Crop =
       \<lparr>sx = Num ((iw - ih * (cw / ch)) / 2), sy = Num 0, sWidth = Num (ih * (cw / ch)),
        sHeight = Num ih, dx = Num 0, dy = Num 0, dWidth = Num cw, dHeight = Num ch\<rparr>"
      using True nz by (simp add: calculateDrawDimensions_def Let_def js_greater_def)
    then show ?thesis
      using withinSource_wide [OF assms(1-4) True] by simp
  next
    case False
    have "cw / ch \<noteq> 0" using assms by simp
    then have "calculateDrawDimensions (Num iw) (Num ih) (Num cw) (Num ch) Crop =
       \<lparr>sx = Num 0, sy = Num ((ih - iw / (cw / ch)) / 2), sWidth = Num iw,
        sHeight = Num (iw / (cw / ch)), dx = Num 0, dy = Num 0, dWidth = Num cw,
        dHeight = Num ch\<rparr>"
      using False nz by (simp add: calculateDrawDimensions_def Let_def js_greater_def)
    then show ?thesis
      using withinSource_tall [OF assms(1-4) False] by simp
  qed
qed

lemma calculateDrawDimensions_cover_crop:
  assumes "0 < iw" "0 < ih" "0 < cw" "0 < ch" and "fit = Cover \<or> fit = Crop"
  shows "fillsCanvas (Num cw) (Num ch) (calculateDrawDimensions (Num iw) (Num ih) (Num cw) (Num ch) fit)"
    and "withinSource iw ih (calculateDrawDimensions (Num iw) (Num ih) (Num cw) (Num ch) fit)"
  using assms(5) calculateDrawDimensions_crop [OF assms(1-4)]
    calculateDrawDimensions_cover_eq_crop [of "Num iw" "Num ih" "Num cw" "Num ch"]
  by metis+

lemma resizeAndFit_crop:
  assumes "0 < bw" "0 < bh" "0 < cw" "0 < ch"
  shows "fillsCanvas (Num (of_nat cw)) (Num (of_nat ch)) (resizeAndFit bw bh cw ch Crop)"
    and "withinSource (of_nat bw) (of_nat bh) (resizeAndFit bw bh cw ch Crop)"
proof -
  let ?bw = "of_nat bw :: rat" and ?bh = "of_nat bh :: rat"
  let ?cw = "of_nat cw :: rat" and ?ch = "of_nat ch :: rat"
  have p: "0 < ?bw" "0 < ?bh" "0 < ?cw" "0 < ?ch"
    using assms by simp_all
  have nz: "?bh \<noteq> 0" "?ch \<noteq> 0"
    using assms by simp_all
  show "fillsCanvas (Num ?cw) (Num ?ch) (resizeAndFit bw bh cw ch Crop)"
    by (simp add: fillsCanvas_def resizeAndFit_def Let_def)
  show "withinSource ?bw ?bh (resizeAndFit bw bh cw ch Crop)"
  proof (cases "?cw / ?ch < ?bw / ?bh")
    case True
    have "resizeAndFit bw bh cw ch Crop =
       \<lparr>sx = Num ((?bw - ?bh * (?cw / ?ch)) / 2), sy = Num 0, sWidth = Num (?bh * (?cw / ?ch)),
        sHeight = Num ?bh, dx = Num 0, dy = Num 0, dWidth = Num ?cw, dHeight = Num ?ch\<rparr>"
      using True nz by (simp add: resizeAndFit_def Let_def js_greater_def)
    then show ?thesis
      using withinSource_wide [OF p True] by simp
  next
    case False
    have "?cw / ?ch \<noteq> 0" using assms by simp
    then have "resizeAndFit bw bh cw ch Crop =
       \<lparr>sx = Num 0, sy = Num ((?bh - ?bw / (?cw / ?ch)) / 2), sWidth = Num ?bw,
        sHeight = Num (?bw / (?cw / ?ch)), dx = Num 0, dy = Num 0, dWidth = Num ?cw,
        dHeight = Num ?ch\<rparr>"
      using False nz by (simp add: resizeAndFit_def Let_def js_greater_def)
    then show ?thesis
      using withinSource_tall [OF p False] by simp
  qed
qed

section \<open>Properties of the corner paths\<close>

text \<open>
  \<open>drawRoundedRectPath\<close> saturates: a radius of at least \<open>min(width, height) / 2\<close> gives
  the path of exactly that radius.
\<close>

lemma drawRoundedRectPath_clamp:
  assumes "min width height / 2 \<le> radius"
  shows "drawRoundedRectPath width height radius =
         drawRoundedRectPath width height (min width height / 2)"
proof -
  have a: "min radius (min (width / 2) (height / 2)) = min width height / 2"
    using assms by (auto simp: min_def)
  have b: "min (min width height / 2) (min (width / 2) (height / 2)) = min width height / 2"
    by (auto simp: min_def)
  show ?thesis
    unfolding drawRoundedRectPath_def a b ..
qed

section \<open>Properties of the background removal\<close>

subsection \<open>The tolerance test\<close>

lemma colorDistance_less_tolerance:
  "colorDistance r1 g1 b1 r2 g2 b2 < tolerance \<longleftrightarrow>
     (r1 - r2)\<^sup>2 + (g1 - g2)\<^sup>2 + (b1 - b2)\<^sup>2 < 400"
proof -
  have "sqrt (real_of_int x) < 20 \<longleftrightarrow> x < 400" for x
  proof -
    have "sqrt (real_of_int x) < sqrt 400 \<longleftrightarrow> real_of_int x < 400"
      by (rule real_sqrt_less_iff)
    moreover have "sqrt 400 = 20"
      using real_sqrt_abs [of 20] by simp
    ultimately show ?thesis by simp
  qed
  then show ?thesis
    unfolding colorDistance_def tolerance_def by blast
qed

text \<open>With it the inner loop runs on integers alone, which makes the fill executable.\<close>

lemmas visit_code [code] = visit_def [unfolded colorDistance_less_tolerance]

subsection \<open>Applying the mask\<close>

text \<open>
  What the last loop leaves at byte \<open>j\<close>: the alpha byte of pixel \<open>j div 4\<close> is cleared
  or halved as the mask says, every other byte is the one that was there.
\<close>

lemma length_applyAt: "length (applyAt m i data) = length data"
  by (simp add: applyAt_def Let_def)

lemma length_fold_applyAt: "length (fold (applyAt m) [0..<n] data) = length data"
  by (induction n) (simp_all add: length_applyAt)

lemma fold_applyAt_nth:
  "j < length data \<Longrightarrow>
   fold (applyAt m) [0..<n] data ! j =
     (if j mod 4 = 3 \<and> j div 4 < n
      then (if m ! (j div 4) = 1 then 0
            else if m ! (j div 4) = 2 then data ! j div 2 else data ! j)
      else data ! j)"
proof (induction n)
  case 0
  then show ?case by simp
next
  case (Suc n)
  let ?d = "fold (applyAt m) [0..<n] data"
  have len: "length ?d = length data" by (rule length_fold_applyAt)
  have step: "fold (applyAt m) [0..<Suc n] data = applyAt m n ?d" by simp
  show ?case
  proof (cases "j = n * 4 + 3")
    case True
    then have j: "j mod 4 = 3" "j div 4 = n" by simp_all
    have old: "?d ! j = data ! j" using Suc.IH [OF Suc.prems] j by simp
    show ?thesis
      unfolding step using Suc.prems len old j True
      by (simp add: applyAt_def Let_def)
  next
    case False
    then have neq: "\<not> (j mod 4 = 3 \<and> j div 4 = n)" by presburger
    have "applyAt m n ?d ! j = ?d ! j"
      using False by (simp add: applyAt_def Let_def)
    then show ?thesis
      unfolding step using Suc.IH [OF Suc.prems] neq
      by (auto simp: less_Suc_eq)
  qed
qed

subsection \<open>Pixel coordinates and mask indices\<close>

lemma pixelIndex_less:
  assumes "inBounds width height p"
  shows "pixelIndex width p < width * height"
proof -
  obtain x y where p: "p = (x, y)" by (cases p)
  from assms p have b: "0 \<le> x" "x < int width" "0 \<le> y" "y < int height"
    by (simp_all add: inBounds_def)
  have "y * int width \<le> (int height - 1) * int width"
    using b by (intro mult_right_mono) simp_all
  then have "y * int width + x < int height * int width"
    using b by (simp add: algebra_simps)
  moreover have "0 \<le> y * int width + x" using b by simp
  ultimately have "nat (y * int width + x) < nat (int height * int width)"
    by simp
  also have "nat (int height * int width) = width * height"
    by (simp add: nat_mult_distrib mult.commute)
  finally show ?thesis by (simp add: pixelIndex_def p)
qed

lemma pixelIndex_inj:
  assumes "inBounds width height p" and "inBounds width height q"
    and "pixelIndex width p = pixelIndex width q"
  shows "p = q"
proof -
  obtain x y where p: "p = (x, y)" by (cases p)
  obtain x' y' where q: "q = (x', y')" by (cases q)
  from assms p q have b: "0 \<le> x" "x < int width" "0 \<le> y" "0 \<le> x'" "x' < int width" "0 \<le> y'"
    by (simp_all add: inBounds_def)
  have "0 \<le> y * int width + x" and "0 \<le> y' * int width + x'"
    using b by simp_all
  then have "y * int width + x = y' * int width + x'"
    using assms(3) by (simp add: pixelIndex_def p q)
  then have "(y * int width + x) mod int width = (y' * int width + x') mod int width"
    and "(y * int width + x) div int width = (y' * int width + x') div int width"
    by simp_all
  then have "x = x'" and "y = y'"
    using b by simp_all
  then show ?thesis by (simp add: p q)
qed

lemma pixelIndex_surj:
  assumes "0 < width" and "i < width * height"
  shows "inBounds width height (int (i mod width), int (i div width))"
    and "pixelIndex width (int (i mod width), int (i div width)) = i"
proof -
  have "i div width < height"
    using assms by (simp add: less_mult_imp_div_less mult.commute)
  then show "inBounds width height (int (i mod width), int (i div width))"
    using assms(1) by (simp add: inBounds_def)
  have "int (i div width) * int width + int (i mod width) = int i"
    by (simp flip: of_nat_mult of_nat_add)
  then show "pixelIndex width (int (i mod width), int (i div width)) = i"
    by (simp add: pixelIndex_def)
qed

subsection \<open>The flood fill on an image of one colour\<close>

text \<open>
  \<open>uniformColor\<close>: every pixel has the RGB triple \<open>c\<close>. The invariant of the fill on such
  an image has two parts. \<open>fillBase\<close>: the queue holds exactly the marked pixels.
  \<open>fillClosed\<close>: every pixel in bounds next to one of the first \<open>head\<close> queue entries
  is on the queue as well.
\<close>

definition uniformColor :: "nat \<Rightarrow> nat \<Rightarrow> nat list \<Rightarrow> nat \<times> nat \<times> nat \<Rightarrow> bool" where
  "uniformColor width height data c =
     (\<forall>i < width * height. (data ! (i * 4), data ! (i * 4 + 1), data ! (i * 4 + 2)) = c)"

definition fillBase :: "nat \<Rightarrow> nat \<Rightarrow> nat list \<times> point list \<Rightarrow> bool" where
  "fillBase width height st =
     (length (fst st) = width * height \<and>
      (\<forall>p \<in> set (snd st). inBounds width height p \<and> fst st ! pixelIndex width p = 1) \<and>
      (\<forall>p. inBounds width height p \<and> fst st ! pixelIndex width p \<noteq> 0 \<longrightarrow> p \<in> set (snd st)))"

definition fillClosed :: "nat \<Rightarrow> nat \<Rightarrow> point list \<Rightarrow> nat \<Rightarrow> bool" where
  "fillClosed width height queue head =
     (\<forall>p \<in> set (take head queue). \<forall>n \<in> set (fillNeighbors p).
        inBounds width height n \<longrightarrow> n \<in> set queue)"

lemma visit_uniform:
  assumes u: "uniformColor width height data bg"
    and b: "fillBase width height st"
  shows "fillBase width height (visit width height data bg n st)"
    and "\<exists>ext. snd (visit width height data bg n st) = snd st @ ext"
    and "inBounds width height n \<Longrightarrow> n \<in> set (snd (visit width height data bg n st))"
proof -
  obtain m q where st: "st = (m, q)" by (cases st)
  obtain nx ny where n: "n = (nx, ny)" by (cases n)
  obtain bgR bgG bgB where bg: "bg = (bgR, bgG, bgB)" by (cases bg)
  from b st have len: "length m = width * height"
    and marked: "\<And>p. p \<in> set q \<Longrightarrow> inBounds width height p \<and> m ! pixelIndex width p = 1"
    and queued: "\<And>p. inBounds width height p \<Longrightarrow> m ! pixelIndex width p \<noteq> 0 \<Longrightarrow> p \<in> set q"
    by (auto simp: fillBase_def)
  show "fillBase width height (visit width height data bg n st)"
    and "\<exists>ext. snd (visit width height data bg n st) = snd st @ ext"
    and "inBounds width height n \<Longrightarrow> n \<in> set (snd (visit width height data bg n st))"
  proof -
    consider (out) "\<not> inBounds width height n"
      | (seen) "inBounds width height n" "m ! pixelIndex width n \<noteq> 0"
      | (new) "inBounds width height n" "m ! pixelIndex width n = 0"
      by blast
    then have "fillBase width height (visit width height data bg n st) \<and>
       (\<exists>ext. snd (visit width height data bg n st) = snd st @ ext) \<and>
       (inBounds width height n \<longrightarrow> n \<in> set (snd (visit width height data bg n st)))"
    proof cases
      case out
      then have "visit width height data bg n st = st"
        by (auto simp: visit_def st n bg inBounds_def)
      with b out show ?thesis by simp
    next
      case seen
      then have "visit width height data bg n st = st"
        by (auto simp: visit_def st n bg inBounds_def pixelIndex_def Let_def)
      with b seen queued st show ?thesis by simp
    next
      case new
      let ?i = "pixelIndex width n"
      have i: "?i < width * height" using new(1) by (rule pixelIndex_less)
      have "(data ! (?i * 4), data ! (?i * 4 + 1), data ! (?i * 4 + 2)) = bg"
        using u i by (simp add: uniformColor_def)
      then have close: "colorDistance (int (data ! (?i * 4))) (int (data ! (?i * 4 + 1)))
          (int (data ! (?i * 4 + 2))) (int bgR) (int bgG) (int bgB) < tolerance"
        by (simp add: colorDistance_less_tolerance bg)
      have v: "visit width height data bg n st = (m[?i := 1], q @ [n])"
        using new i len close
        by (simp add: visit_def st n bg inBounds_def pixelIndex_def Let_def)
      have "fillBase width height (m[?i := 1], q @ [n])"
        unfolding fillBase_def
      proof (intro conjI ballI allI impI)
        show "length (fst (m[?i := 1], q @ [n])) = width * height" using len by simp
      next
        fix p assume "p \<in> set (snd (m[?i := 1], q @ [n]))"
        then consider "p \<in> set q" | "p = n" by auto
        then show "inBounds width height p" using marked new(1) by cases auto
      next
        fix p assume "p \<in> set (snd (m[?i := 1], q @ [n]))"
        then consider "p \<in> set q" | "p = n" by auto
        then show "fst (m[?i := 1], q @ [n]) ! pixelIndex width p = 1"
        proof cases
          case 1
          then show ?thesis using marked [OF 1] i len
            by (cases "pixelIndex width p = ?i") simp_all
        next
          case 2
          then show ?thesis using i len by simp
        qed
      next
        fix p
        assume a: "inBounds width height p \<and> fst (m[?i := 1], q @ [n]) ! pixelIndex width p \<noteq> 0"
        show "p \<in> set (snd (m[?i := 1], q @ [n]))"
        proof (cases "pixelIndex width p = ?i")
          case True
          with a new(1) have "p = n" by (auto intro: pixelIndex_inj)
          then show ?thesis by simp
        next
          case False
          with a have "m ! pixelIndex width p \<noteq> 0" by simp
          with a queued show ?thesis by simp
        qed
      qed
      with v st show ?thesis by simp
    qed
    then show "fillBase width height (visit width height data bg n st)"
      and "\<exists>ext. snd (visit width height data bg n st) = snd st @ ext"
      and "inBounds width height n \<Longrightarrow> n \<in> set (snd (visit width height data bg n st))"
      by blast+
  qed
qed

lemma fold_visit_uniform:
  assumes u: "uniformColor width height data bg"
  shows "fillBase width height st \<Longrightarrow>
     fillBase width height (fold (visit width height data bg) ns st) \<and>
     (\<exists>ext. snd (fold (visit width height data bg) ns st) = snd st @ ext) \<and>
     (\<forall>n \<in> set ns. inBounds width height n \<longrightarrow>
        n \<in> set (snd (fold (visit width height data bg) ns st)))"
proof (induction ns arbitrary: st)
  case Nil
  then show ?case by simp
next
  case (Cons n ns)
  let ?st1 = "visit width height data bg n st"
  note v = visit_uniform [OF u Cons.prems, of n]
  from Cons.IH [OF v(1)] obtain ext2 where
    b2: "fillBase width height (fold (visit width height data bg) ns ?st1)"
    and e2: "snd (fold (visit width height data bg) ns ?st1) = snd ?st1 @ ext2"
    and n2: "\<forall>k \<in> set ns. inBounds width height k \<longrightarrow>
        k \<in> set (snd (fold (visit width height data bg) ns ?st1))"
    by blast
  from v(2) obtain ext1 where e1: "snd ?st1 = snd st @ ext1" by blast
  have "inBounds width height n \<longrightarrow> n \<in> set (snd (fold (visit width height data bg) ns ?st1))"
    using v(3) e2 by auto
  with b2 e1 e2 n2 show ?case by simp
qed

lemma floodFill_uniform:
  "uniformColor width height data bg \<Longrightarrow>
     fillBase width height st \<Longrightarrow> fillClosed width height (snd st) head \<Longrightarrow>
     head \<le> length (snd st) \<Longrightarrow>
     \<exists>q. fillBase width height (floodFill width height data bg st head, q) \<and>
         fillClosed width height q (length q) \<and> set (snd st) \<subseteq> set q"
proof (induction width height data bg st head rule: floodFill.induct)
  case (1 width height data bg st head)
  show ?case
  proof (cases "head < length (snd st)")
    case False
    with "1.prems" have "head = length (snd st)" by simp
    moreover have "floodFill width height data bg st head = fst st"
      using False by (subst floodFill.simps) simp
    ultimately show ?thesis
      using "1.prems" by (intro exI [of _ "snd st"]) simp
  next
    case True
    let ?p = "snd st ! head"
    let ?st' = "expand width height data bg ?p st"
    from fold_visit_uniform [OF "1.prems"(1) "1.prems"(2), of "fillNeighbors ?p"]
    obtain ext where b': "fillBase width height ?st'"
      and e: "snd ?st' = snd st @ ext"
      and nb: "\<forall>n \<in> set (fillNeighbors ?p). inBounds width height n \<longrightarrow> n \<in> set (snd ?st')"
      unfolding expand_def by blast
    have tk: "take (Suc head) (snd ?st') = take head (snd st) @ [?p]"
      using True e by (simp add: take_Suc_conv_app_nth)
    have c': "fillClosed width height (snd ?st') (Suc head)"
      unfolding fillClosed_def tk using "1.prems"(3) nb e
      by (auto simp: fillClosed_def)
    have h': "Suc head \<le> length (snd ?st')" using True e by simp
    from "1.IH" [OF True "1.prems"(1) b' c' h'] obtain q where
      "fillBase width height (floodFill width height data bg ?st' (Suc head), q)"
      "fillClosed width height q (length q)" "set (snd ?st') \<subseteq> set q"
      by blast
    moreover have "floodFill width height data bg st head =
        floodFill width height data bg ?st' (Suc head)"
      using True by (subst floodFill.simps) simp
    ultimately show ?thesis using e by (intro exI [of _ q]) auto
  qed
qed

lemma edgeQueue_inBounds:
  assumes "0 < width" and "0 < height" and "p \<in> set (edgeQueue width height)"
  shows "inBounds width height p"
  using assms by (auto simp: edgeQueue_def inBounds_def)

lemma edgeQueue_left:
  assumes "0 < width" and "y < height"
  shows "(0, int y) \<in> set (edgeQueue width height)"
proof -
  consider "y = 0" | "y = height - 1" | "1 \<le> y" "y < height - 1"
    using assms(2) by linarith
  then show ?thesis
  proof cases
    case 1
    then show ?thesis using assms(1) by (force simp: edgeQueue_def)
  next
    case 2
    then have "int y = int height - 1" using assms(2) by simp
    then show ?thesis using assms(1) by (force simp: edgeQueue_def)
  next
    case 3
    then show ?thesis by (force simp: edgeQueue_def)
  qed
qed

lemma length_markBackground: "length (markBackground width p m) = length m"
  by (simp add: markBackground_def split: prod.splits)

lemma length_fold_markBackground: "length (fold (markBackground width) ps m) = length m"
  by (induction ps arbitrary: m) (simp_all add: length_markBackground)

lemma fold_markBackground_nth:
  assumes "\<forall>p \<in> set ps. inBounds width height p" and "length m = width * height"
    and "i < width * height"
  shows "fold (markBackground width) ps m ! i =
     (if \<exists>p \<in> set ps. pixelIndex width p = i then 1 else m ! i)"
  using assms
proof (induction ps arbitrary: m)
  case Nil
  then show ?case by simp
next
  case (Cons p ps)
  obtain x y where p: "p = (x, y)" by (cases p)
  have pb: "inBounds width height p" using Cons.prems(1) by simp
  then have lt: "pixelIndex width p < width * height" by (rule pixelIndex_less)
  have nn: "0 \<le> y * int width + x" using pb by (simp add: inBounds_def p)
  have "y * int width + x < int (length m)"
    using lt nn Cons.prems(2) by (simp add: pixelIndex_def p nat_less_iff)
  then have m1: "markBackground width p m = m[pixelIndex width p := 1]"
    using nn by (simp add: markBackground_def pixelIndex_def p)
  have "fold (markBackground width) ps (m[pixelIndex width p := 1]) ! i =
     (if \<exists>p \<in> set ps. pixelIndex width p = i then 1 else m[pixelIndex width p := 1] ! i)"
    using Cons.prems by (intro Cons.IH) simp_all
  then show ?case
    using m1 Cons.prems(2,3) by (auto simp: nth_list_update)
qed

lemma initial_fillBase:
  assumes "0 < width" and "0 < height"
  shows "fillBase width height
     (fold (markBackground width) (edgeQueue width height) (replicate (width * height) 0),
      edgeQueue width height)"
proof -
  let ?q = "edgeQueue width height"
  let ?m = "fold (markBackground width) ?q (replicate (width * height) 0)"
  have inb: "\<forall>p \<in> set ?q. inBounds width height p"
    using assms by (auto intro: edgeQueue_inBounds)
  have nth: "?m ! i = (if \<exists>p \<in> set ?q. pixelIndex width p = i then 1 else 0)"
    if "i < width * height" for i
    using fold_markBackground_nth [OF inb _ that, of "replicate (width * height) 0"] that
    by simp
  show ?thesis
    unfolding fillBase_def
  proof (intro conjI ballI allI impI)
    show "length (fst (?m, ?q)) = width * height"
      by (simp add: length_fold_markBackground)
  next
    fix p assume "p \<in> set (snd (?m, ?q))"
    then show "inBounds width height p" using inb by simp
  next
    fix p assume p: "p \<in> set (snd (?m, ?q))"
    then have "inBounds width height p" using inb by simp
    then have "pixelIndex width p < width * height" by (rule pixelIndex_less)
    from nth [OF this] p show "fst (?m, ?q) ! pixelIndex width p = 1" by auto
  next
    fix p assume a: "inBounds width height p \<and> fst (?m, ?q) ! pixelIndex width p \<noteq> 0"
    then have "pixelIndex width p < width * height" by (simp add: pixelIndex_less)
    from nth [OF this] a obtain q where "q \<in> set ?q" "pixelIndex width q = pixelIndex width p"
      by (auto split: if_splits)
    moreover from this inb have "inBounds width height q" by simp
    ultimately have "q = p" using a by (auto intro: pixelIndex_inj)
    with \<open>q \<in> set ?q\<close> show "p \<in> set (snd (?m, ?q))" by simp
  qed
qed

lemma closed_all:
  assumes c: "fillClosed width height q (length q)"
    and left: "\<And>y. y < height \<Longrightarrow> (0, int y) \<in> set q"
    and y: "y < height"
  shows "x < width \<Longrightarrow> (int x, int y) \<in> set q"
proof (induction x)
  case 0
  then show ?case using left [OF y] by simp
next
  case (Suc x)
  then have "(int x, int y) \<in> set q" by simp
  moreover have "(int (Suc x), int y) \<in> set (fillNeighbors (int x, int y))"
    by (simp add: fillNeighbors_def)
  moreover have "inBounds width height (int (Suc x), int y)"
    using Suc.prems y by (simp add: inBounds_def)
  ultimately show ?case using c by (auto simp: fillClosed_def)
qed

lemma countSample_first:
  assumes "(data ! i, data ! (i + 1), data ! (i + 2)) = c" and "maxCount st = 0"
  shows "dominantColor (countSample data i st) = c"
  using assms by (simp add: countSample_def Let_def)

lemma countSample_keep:
  assumes "(data ! i, data ! (i + 1), data ! (i + 2)) = c" and "dominantColor st = c"
  shows "dominantColor (countSample data i st) = c"
  using assms by (simp add: countSample_def Let_def)

lemma fold_countSample_keep:
  assumes "\<forall>i \<in> set ps. (data ! i, data ! (i + 1), data ! (i + 2)) = c"
  shows "dominantColor st = c \<Longrightarrow> dominantColor (fold (countSample data) ps st) = c"
  using assms by (induction ps arbitrary: st) (simp_all add: countSample_keep)

lemma samplePoints_pixel:
  assumes "0 < width" and "0 < height" and "i \<in> set (samplePoints width height)"
  shows "\<exists>k < width * height. i = k * 4"
proof -
  obtain h' where h: "height = Suc h'" using assms(2) by (cases height) simp_all
  obtain w' where w: "width = Suc w'" using assms(1) by (cases width) simp_all
  from assms(3) consider
      k where "k < width" "i = k * 4"
    | k where "k < width" "i = (height - 1) * width * 4 + k * 4"
    | k where "k < height" "i = k * width * 4"
    | k where "k < height" "i = k * width * 4 + (width - 1) * 4"
    by (auto simp: samplePoints_def)
  then show ?thesis
  proof cases
    case 1
    have "k < width * height" using 1(1) h by simp
    with 1 show ?thesis by blast
  next
    case 2
    have "(height - 1) * width + k < width * height" using 2(1) h by (simp add: algebra_simps)
    moreover have "i = ((height - 1) * width + k) * 4" using 2 by (simp add: algebra_simps)
    ultimately show ?thesis by blast
  next
    case 3
    have "k * width < width * height"
      using 3(1) assms(1) by (simp add: mult.commute)
    moreover have "i = (k * width) * 4" using 3 by simp
    ultimately show ?thesis by blast
  next
    case 4
    have "k * width + (width - 1) < Suc k * width" using assms(1) by simp
    also have "\<dots> \<le> height * width" using 4(1) by (intro mult_le_mono1) simp
    finally have "k * width + (width - 1) < width * height" by (simp add: mult.commute)
    moreover have "i = (k * width + (width - 1)) * 4" using 4 by (simp add: algebra_simps)
    ultimately show ?thesis by blast
  qed
qed

lemma getEdgeColor_uniform:
  assumes "0 < width" and "0 < height" and u: "uniformColor width height data c"
  shows "getEdgeColor width height data = c"
proof -
  have all: "\<forall>i \<in> set (samplePoints width height). (data ! i, data ! (i + 1), data ! (i + 2)) = c"
  proof
    fix i assume "i \<in> set (samplePoints width height)"
    from samplePoints_pixel [OF assms(1,2) this] obtain k where "k < width * height" "i = k * 4"
      by blast
    with u show "(data ! i, data ! (i + 1), data ! (i + 2)) = c"
      by (simp add: uniformColor_def)
  qed
  have "[0..<width] = 0 # [Suc 0..<width]"
    using assms(1) by (rule upt_conv_Cons)
  then obtain ps where sp: "samplePoints width height = 0 # ps"
    by (simp add: samplePoints_def)
  let ?st0 = "\<lparr>colorCounts = Map.empty, maxCount = 0, dominantColor = (255, 255, 255)\<rparr>"
  have "dominantColor (countSample data 0 ?st0) = c"
    using all sp by (intro countSample_first) simp_all
  then have "dominantColor (fold (countSample data) ps (countSample data 0 ?st0)) = c"
    using all sp by (intro fold_countSample_keep) simp_all
  then show ?thesis by (simp add: getEdgeColor_def sp)
qed

lemma featherAt_id: "m ! i \<noteq> 0 \<Longrightarrow> featherAt width height i m = m"
  by (simp add: featherAt_def)

lemma fold_featherAt_id:
  assumes "\<forall>i < length m. m ! i \<noteq> 0"
  shows "n \<le> length m \<Longrightarrow> fold (featherAt width height) [0..<n] m = m"
proof (induction n)
  case 0
  then show ?case by simp
next
  case (Suc n)
  then have "fold (featherAt width height) [0..<n] m = m" by simp
  moreover have "featherAt width height n m = m"
    using assms Suc.prems by (intro featherAt_id) simp
  ultimately show ?case by simp
qed

lemma backgroundMaskOf_uniform:
  assumes wf: "wellFormed width height data" and u: "uniformColor width height data c"
  shows "backgroundMaskOf width height data = replicate (width * height) 1"
proof -
  from wf have w: "0 < width" and h: "0 < height" by (simp_all add: wellFormed_def)
  let ?q = "edgeQueue width height"
  let ?seeded = "fold (markBackground width) ?q (replicate (width * height) 0)"
  let ?m = "floodFill width height data c (?seeded, ?q) 0"
  have bg: "getEdgeColor width height data = c" using w h u by (rule getEdgeColor_uniform)
  have "fillClosed width height (snd (?seeded, ?q)) 0" by (simp add: fillClosed_def)
  from floodFill_uniform [OF u initial_fillBase [OF w h] this]
  obtain q where b: "fillBase width height (?m, q)"
    and c: "fillClosed width height q (length q)" and sub: "set ?q \<subseteq> set q"
    by auto
  have left: "(0, int y) \<in> set q" if "y < height" for y
    using edgeQueue_left [OF w that] sub by blast
  have len: "length ?m = width * height"
    using b unfolding fillBase_def fst_conv snd_conv by blast
  have marked: "\<forall>p \<in> set q. ?m ! pixelIndex width p = 1"
    using b unfolding fillBase_def fst_conv snd_conv by blast
  have one: "?m ! i = 1" if "i < width * height" for i
  proof -
    let ?p = "(int (i mod width), int (i div width))"
    have "i div width < height"
      using that w by (simp add: less_mult_imp_div_less mult.commute)
    moreover have "i mod width < width" using w by simp
    ultimately have "?p \<in> set q" using closed_all [OF c left] by blast
    with marked have "?m ! pixelIndex width ?p = 1" by (rule bspec)
    then show ?thesis using pixelIndex_surj(2) [OF w that] by simp
  qed
  then have all1: "?m = replicate (width * height) 1"
    using len by (intro nth_equalityI) simp_all
  have "\<forall>i < length ?m. ?m ! i \<noteq> 0" using one len by simp
  then have "fold (featherAt width height) [0..<length ?m] ?m = ?m"
    by (intro fold_featherAt_id) simp_all
  moreover have "backgroundMaskOf width height data =
      fold (featherAt width height) [0..<length ?m] ?m"
    unfolding backgroundMaskOf_def Let_def bg ..
  ultimately show ?thesis
    using all1 by simp
qed

section \<open>The background removal: the claims\<close>

text \<open>
  Claim C8. On an image whose pixels all have the same RGB colour, the flood-fill background
  removal sets the alpha byte of every pixel to 0: no pixel is left as foreground or as a
  feathered edge.
\<close>

theorem uniform_image_fully_transparent:
  assumes "wellFormed width height data"
    and "\<forall>i < width * height.
           data ! (i * 4) = r \<and> data ! (i * 4 + 1) = g \<and> data ! (i * 4 + 2) = b"
    and "i < width * height"
  shows "removeImageBackground width height data ! (i * 4 + 3) = 0"
proof -
  have u: "uniformColor width height data (r, g, b)"
    using assms(2) by (simp add: uniformColor_def)
  have m: "backgroundMaskOf width height data = replicate (width * height) 1"
    using assms(1) u by (rule backgroundMaskOf_uniform)
  have "i * 4 + 3 < length data"
    using assms(1,3) by (simp add: wellFormed_def)
  then have "fold (applyAt (replicate (width * height) 1)) [0..<width * height] data ! (i * 4 + 3) = 0"
    using assms(3) by (subst fold_applyAt_nth) simp_all
  then show ?thesis
    by (simp add: removeImageBackground_def Let_def m)
qed

theorem uniform_image_fully_transparent_witness:
  "removeImageBackground 2 2 [9, 8, 7, 255, 9, 8, 7, 255, 9, 8, 7, 128, 9, 8, 7, 255] ! (2 * 4 + 3) = 0"
proof (rule uniform_image_fully_transparent [where r = 9 and g = 8 and b = 7])
  show "wellFormed 2 2 [9, 8, 7, 255, 9, 8, 7, 255, 9, 8, 7, 128, 9, 8, 7, 255]"
    by (simp add: wellFormed_def)
  show "\<forall>i < 2 * 2.
      [9, 8, 7, 255, 9, 8, 7, 255, 9, 8, 7, 128, 9, 8, 7, 255] ! (i * 4) = 9 \<and>
      [9, 8, 7, 255, 9, 8, 7, 255, 9, 8, 7, 128, 9, 8, 7, 255] ! (i * 4 + 1) = 8 \<and>
      [9, 8, 7, 255, 9, 8, 7, 255, 9, 8, 7, 128, 9, 8, 7, 255] ! (i * 4 + 2) = (7::nat)"
    by (simp add: less_Suc_eq eval_nat_numeral)
  show "(2::nat) < 2 * 2" by simp
qed

text \<open>
  Claim C10. The background removal writes alpha bytes only: the buffer keeps its length,
  the R, G and B byte of every pixel are the ones of the input, and the alpha byte of a
  pixel never grows.
\<close>

theorem removeImageBackground_only_lowers_alpha:
  assumes "wellFormed width height data" and "i < width * height"
  shows "length (removeImageBackground width height data) = length data \<and>
     removeImageBackground width height data ! (i * 4) = data ! (i * 4) \<and>
     removeImageBackground width height data ! (i * 4 + 1) = data ! (i * 4 + 1) \<and>
     removeImageBackground width height data ! (i * 4 + 2) = data ! (i * 4 + 2) \<and>
     removeImageBackground width height data ! (i * 4 + 3) \<le> data ! (i * 4 + 3)"
proof -
  let ?m = "backgroundMaskOf width height data"
  have r: "removeImageBackground width height data = fold (applyAt ?m) [0..<length ?m] data"
    by (simp add: removeImageBackground_def Let_def)
  have lt: "i * 4 < length data" "i * 4 + 1 < length data" "i * 4 + 2 < length data"
    "i * 4 + 3 < length data"
    using assms by (simp_all add: wellFormed_def)
  have md: "(i * 4) mod 4 \<noteq> 3" "(i * 4 + 1) mod 4 \<noteq> 3" "(i * 4 + 2) mod 4 \<noteq> 3"
    by presburger+
  show ?thesis
    unfolding r using lt md
    by (simp add: length_fold_applyAt fold_applyAt_nth)
qed

theorem removeImageBackground_only_lowers_alpha_witness:
  "length (removeImageBackground 1 2 [10, 20, 30, 255, 40, 50, 60, 200]) = 8 \<and>
   removeImageBackground 1 2 [10, 20, 30, 255, 40, 50, 60, 200] ! 4 = 40 \<and>
   removeImageBackground 1 2 [10, 20, 30, 255, 40, 50, 60, 200] ! 5 = 50 \<and>
   removeImageBackground 1 2 [10, 20, 30, 255, 40, 50, 60, 200] ! 6 = 60 \<and>
   removeImageBackground 1 2 [10, 20, 30, 255, 40, 50, 60, 200] ! 7 \<le> 200"
  using removeImageBackground_only_lowers_alpha
    [of 1 2 "[10, 20, 30, 255, 40, 50, 60, 200]" 1]
  by (simp add: wellFormed_def)

section \<open>Geometry and corners: the claims\<close>

text \<open>
  Claim C1. For positive image and canvas sizes, the fits \<open>cover\<close> and \<open>crop\<close> draw onto
  the whole canvas from a source rectangle inside the image. \<open>calculateDrawDimensions\<close>
  does so for both fits (\<open>calculateDrawDimensions_cover_crop\<close>) and the \<open>crop\<close> case of
  the other worker does (\<open>resizeAndFit_crop\<close>). Its \<open>cover\<close> case does not: for a
  100 x 200 bitmap on a 100 x 100 canvas the source rectangle starts at \<open>x = -50\<close> and is
  200 wide, twice the width of the bitmap.
\<close>

theorem cover_source_outside_image:
  "sx (resizeAndFit 100 200 100 100 Cover) = Num (- 50) \<and>
   sWidth (resizeAndFit 100 200 100 100 Cover) = Num 200 \<and>
   \<not> withinSource 100 200 (resizeAndFit 100 200 100 100 Cover)"
  by (simp add: withinSource_def resizeAndFit_def Let_def js_greater_def)

text \<open>
  Claim C2. The fits \<open>cover\<close> and \<open>crop\<close> compute the same rectangles.
  \<open>calculateDrawDimensions\<close> does (\<open>calculateDrawDimensions_cover_eq_crop\<close>); the switch of
  the other worker does not, since its \<open>cover\<close> case compares the aspect ratios the other
  way round: the same 100 x 200 bitmap on a 100 x 100 canvas gets two different source
  rectangles.
\<close>

theorem cover_differs_from_crop:
  "resizeAndFit 100 200 100 100 Cover \<noteq> resizeAndFit 100 200 100 100 Crop \<and>
   sy (resizeAndFit 100 200 100 100 Crop) = Num 50 \<and>
   sy (resizeAndFit 100 200 100 100 Cover) = Num 0"
  by (simp add: resizeAndFit_def Let_def js_greater_def)

text \<open>
  Claim C7. A corner radius of at least \<open>min(width, height) / 2\<close> gives the mask of that
  radius. \<open>drawRoundedRectPath\<close> clamps (\<open>drawRoundedRectPath_clamp\<close>); the corner step of
  the other worker does not: on a 100 x 100 canvas the radius 100 and the radius 50 give
  different paths, the first with line segments that run back to the canvas corners.
\<close>

theorem roundedCornerPath_not_clamped:
  "roundedCornerPath 100 100 100 \<noteq> roundedCornerPath 100 100 (min 100 100 / 2) \<and>
   roundedCornerPath 100 100 100 ! 3 = LineTo 0 0 \<and>
   roundedCornerPath 100 100 (min 100 100 / 2) ! 3 = LineTo 50 0"
  by (simp add: roundedCornerPath_def)

end
